theory Spec2Isabelle
  imports Complex_Main
begin

text \<open>
  A shallow embedding of SafeAccess: the mask detection pipeline of
  \<^verbatim>\<open>mask_system.py\<close> (prediction mapper, access state machine, inference dispatcher)
  and the credential loop of \<^verbatim>\<open>projeto_camera.py\<close>. Every method that changes the
  \<^verbatim>\<open>MaskAccessSystem\<close> object takes the object and returns the new one; every value
  read from outside (the clock, the camera, the HTTP answer, the serial line, the table of
  tags) is an argument; an exception is the left summand of the result.
\<close>

section \<open>Values and exceptions of the Python program\<close>

text \<open>
  The detection pipeline works on what \<^verbatim>\<open>resp.json()\<close> returns: a dynamically typed
  JSON value. Objects are association lists in the order of the document (a Python dict
  keeps insertion order and has distinct keys); numbers, both Python ints and floats, and
  the timestamps of \<^verbatim>\<open>time.time()\<close> are real numbers, so rounding of floating-point
  arithmetic is not part of the model.
\<close>

datatype json =
    JNull
  | JBool bool
  | JNum real
  | JStr string
  | JArr "json list"
  | JObj "(string \<times> json) list"

datatype exn =
    KeyError
  | TypeError
  | AttributeError
  | ZeroDivisionError
  | RequestException
  | HTTPError
  | JSONDecodeError
  | CvError

text \<open>Sequencing of steps that may raise: the first exception ends the block.\<close>

definition bindE :: "exn + 'a \<Rightarrow> ('a \<Rightarrow> exn + 'b) \<Rightarrow> exn + 'b" where
  "bindE m f = (case m of Inl e \<Rightarrow> Inl e | Inr v \<Rightarrow> f v)"

text \<open>\<^verbatim>\<open>p[k]\<close> on a dict: KeyError when the key is absent.\<close>

definition getitem :: "(string \<times> json) list \<Rightarrow> string \<Rightarrow> exn + json" where
  "getitem kvs k = (case map_of kvs k of None \<Rightarrow> Inl KeyError | Some v \<Rightarrow> Inr v)"

text \<open>
  The numeric reading of a value: ints and floats, and bool, which Python makes a subclass
  of int. Nothing else takes part in arithmetic or ordering with a float.
\<close>

fun py_num :: "json \<Rightarrow> real option" where
  "py_num (JNum r) = Some r"
| "py_num (JBool b) = Some (if b then 1 else 0)"
| "py_num _ = None"

text \<open>\<^verbatim>\<open>v * s\<close> and \<^verbatim>\<open>v >= s\<close> with a float \<open>s\<close>: TypeError unless \<open>v\<close> is a number.\<close>

definition py_mul :: "json \<Rightarrow> real \<Rightarrow> exn + real" where
  "py_mul v s = (case py_num v of None \<Rightarrow> Inl TypeError | Some r \<Rightarrow> Inr (r * s))"

definition py_ge :: "json \<Rightarrow> real \<Rightarrow> exn + bool" where
  "py_ge v s = (case py_num v of None \<Rightarrow> Inl TypeError | Some r \<Rightarrow> Inr (r \<ge> s))"

text \<open>\<^verbatim>\<open>for p in v\<close>: a list gives its items, a string its characters, a dict its keys.\<close>

fun py_iter :: "json \<Rightarrow> exn + json list" where
  "py_iter (JArr xs) = Inr xs"
| "py_iter (JStr s) = Inr (map (\<lambda>c. JStr [c]) s)"
| "py_iter (JObj kvs) = Inr (map (\<lambda>kv. JStr (fst kv)) kvs)"
| "py_iter _ = Inl TypeError"

text \<open>\<^verbatim>\<open>str.lower()\<close> on the ASCII letters; the other bytes are left as they are.\<close>

definition lower_char :: "char \<Rightarrow> char" where
  "lower_char c =
     (let n = (of_char c :: nat) in if 65 \<le> n \<and> n \<le> 90 then char_of (n + 32) else c)"

definition str_lower :: "string \<Rightarrow> string" where
  "str_lower s = map lower_char s"

section \<open>Config, frames, detections and the system object\<close>

record Config =
  api_key :: string
  project :: string
  version :: string
  resize_dim :: "int \<times> int"
  conf_threshold :: real
  mask_conf_threshold :: real
  frame_skip :: int
  infer_interval :: real
  request_timeout :: int
  hold_time :: real
  headless :: bool

definition Config_defaults :: "string \<Rightarrow> string \<Rightarrow> string \<Rightarrow> Config" where
  "Config_defaults k p v =
     \<lparr> api_key = k, project = p, version = v, resize_dim = (128, 96),
       conf_threshold = 3 / 10, mask_conf_threshold = 7 / 10, frame_skip = 10,
       infer_interval = 1 / 10, request_timeout = 10, hold_time = 3, headless = False \<rparr>"

text \<open>A captured frame: \<^verbatim>\<open>frame.shape[:2]\<close> is (rows, columns), that is (height, width).\<close>

record frame =
  shape_h :: nat
  shape_w :: nat
  pixels :: "nat list"

text \<open>
  One entry of \<^verbatim>\<open>self.predictions\<close>, the dict with keys x, y, w, h, conf, class that
  \<^verbatim>\<open>_adjust\<close> builds. The confidence is stored as it came from the backend, unchecked.
\<close>

record detection =
  det_x :: real
  det_y :: real
  det_w :: real
  det_h :: real
  det_conf :: json
  det_class :: string

record MaskAccessSystem =
  predictions :: "detection list"
  last_infer :: real
  last_state :: "string option"
  mask_start :: "real option"
  access_granted :: bool
  running :: bool
  queue :: "frame list"
  log_out :: "string list"

definition MASK_LABELS :: "string set" where
  "MASK_LABELS = {''face-mask''}"

definition FACE_LABELS :: "string set" where
  "FACE_LABELS = {''face'', ''balaclava'', ''mask'', ''face covering''}"

text \<open>
  \<^verbatim>\<open>__init__\<close>; the queue is \<^verbatim>\<open>Queue(maxsize=1)\<close>. The camera handle, the URL,
  the HTTP session and the logger are not state that the modelled methods change; what
  the logger prints at INFO level is kept in \<open>log_out\<close>.
\<close>

definition queue_maxsize :: nat where
  "queue_maxsize = 1"

definition init :: MaskAccessSystem where
  "init = \<lparr> predictions = [], last_infer = 0, last_state = None, mask_start = None,
            access_granted = False, running = True, queue = [], log_out = [] \<rparr>"

section \<open>The prediction mapper: \<^verbatim>\<open>_adjust\<close>\<close>

text \<open>
  The label: \<^verbatim>\<open>p.get("class", p.get("name", "")).lower()\<close>. A value without
  \<^verbatim>\<open>get\<close> (anything but a dict) and a label without \<^verbatim>\<open>lower\<close> (anything but a
  string) raise AttributeError, outside the \<^verbatim>\<open>try\<close> of the loop body.
\<close>

definition entry_label :: "json \<Rightarrow> exn + string" where
  "entry_label p =
     (case p of
        JObj kvs \<Rightarrow>
          (let name = (case map_of kvs ''name'' of None \<Rightarrow> JStr [] | Some v \<Rightarrow> v);
               v = (case map_of kvs ''class'' of None \<Rightarrow> name | Some c \<Rightarrow> c)
           in case v of JStr s \<Rightarrow> Inr (str_lower s) | _ \<Rightarrow> Inl AttributeError)
      | _ \<Rightarrow> Inl AttributeError)"

text \<open>The body of the \<^verbatim>\<open>try\<close>, in the order in which Python evaluates it.\<close>

definition entry_box ::
  "real \<Rightarrow> real \<Rightarrow> (string \<times> json) list \<Rightarrow> exn + (real \<times> real \<times> real \<times> real \<times> json)" where
  "entry_box sx sy kvs =
     bindE (getitem kvs ''x'') (\<lambda>px.
     bindE (py_mul px sx) (\<lambda>xs.
     bindE (getitem kvs ''width'') (\<lambda>pw.
     bindE (py_mul pw sx) (\<lambda>ws.
     let x = xs - ws / 2 in
     bindE (getitem kvs ''y'') (\<lambda>py.
     bindE (py_mul py sy) (\<lambda>ys.
     bindE (getitem kvs ''height'') (\<lambda>ph.
     bindE (py_mul ph sy) (\<lambda>hs.
     let y = ys - hs / 2 in
     bindE (getitem kvs ''width'') (\<lambda>pw2.
     bindE (py_mul pw2 sx) (\<lambda>w_box.
     bindE (getitem kvs ''height'') (\<lambda>ph2.
     bindE (py_mul ph2 sy) (\<lambda>h_box.
     bindE (getitem kvs ''confidence'') (\<lambda>conf.
     Inr (x, y, w_box, h_box, conf))))))))))))))"

text \<open>
  One pass of the loop body: \<open>Inr None\<close> is the \<^verbatim>\<open>continue\<close> after a KeyError, any
  other exception leaves \<^verbatim>\<open>_adjust\<close>.
\<close>

definition adjust_entry :: "real \<Rightarrow> real \<Rightarrow> json \<Rightarrow> exn + detection option" where
  "adjust_entry sx sy p =
     bindE (entry_label p) (\<lambda>cls.
       case p of
         JObj kvs \<Rightarrow>
           (case entry_box sx sy kvs of
              Inl KeyError \<Rightarrow> Inr None
            | Inl e \<Rightarrow> Inl e
            | Inr (x, y, w_box, h_box, conf) \<Rightarrow>
                Inr (Some \<lparr> det_x = x, det_y = y, det_w = w_box, det_h = h_box,
                            det_conf = conf, det_class = cls \<rparr>))
       | _ \<Rightarrow> Inl AttributeError)"

fun adjust_loop :: "real \<Rightarrow> real \<Rightarrow> json list \<Rightarrow> detection list \<Rightarrow> exn + detection list" where
  "adjust_loop sx sy [] adjusted = Inr adjusted"
| "adjust_loop sx sy (p # ps) adjusted =
     (case adjust_entry sx sy p of
        Inl e \<Rightarrow> Inl e
      | Inr None \<Rightarrow> adjust_loop sx sy ps adjusted
      | Inr (Some d) \<Rightarrow> adjust_loop sx sy ps (adjusted @ [d]))"

text \<open>\<^verbatim>\<open>w / n\<close> with an int \<open>n\<close>: true division, ZeroDivisionError at zero.\<close>

definition py_truediv :: "nat \<Rightarrow> int \<Rightarrow> exn + real" where
  "py_truediv a b = (if b = 0 then Inl ZeroDivisionError else Inr (real a / real_of_int b))"

definition adjust ::
  "Config \<Rightarrow> json \<Rightarrow> nat \<times> nat \<Rightarrow> MaskAccessSystem \<Rightarrow> exn + MaskAccessSystem" where
  "adjust cfg preds dims s =
     (case dims of (h, w) \<Rightarrow>
        bindE (py_truediv w (fst (resize_dim cfg))) (\<lambda>sx.
        bindE (py_truediv h (snd (resize_dim cfg))) (\<lambda>sy.
        bindE (py_iter preds) (\<lambda>ps.
        bindE (adjust_loop sx sy ps []) (\<lambda>adjusted.
        Inr (s\<lparr>predictions := adjusted\<rparr>))))))"

section \<open>The access state machine: \<^verbatim>\<open>_update_access\<close>\<close>

text \<open>
  \<^verbatim>\<open>any(p["class"] in labels and p["conf"] >= threshold for p in preds)\<close>: the
  comparison is evaluated only for a matching label, the scan stops at the first hit, and
  a confidence that is not a number raises TypeError when it is compared.
\<close>

fun any_label :: "string set \<Rightarrow> real \<Rightarrow> detection list \<Rightarrow> exn + bool" where
  "any_label labels thr [] = Inr False"
| "any_label labels thr (p # ps) =
     (if det_class p \<in> labels then
        (case py_ge (det_conf p) thr of
           Inl e \<Rightarrow> Inl e
         | Inr hit \<Rightarrow> if hit then Inr True else any_label labels thr ps)
      else any_label labels thr ps)"

definition has_mask :: "Config \<Rightarrow> detection list \<Rightarrow> exn + bool" where
  "has_mask cfg preds = any_label MASK_LABELS (mask_conf_threshold cfg) preds"

definition has_face :: "Config \<Rightarrow> detection list \<Rightarrow> exn + bool" where
  "has_face cfg preds = any_label FACE_LABELS (conf_threshold cfg) preds"

text \<open>
  \<^verbatim>\<open>_change_state\<close>: the message is logged (at INFO level) on an actual change only.
  The second message carries two accented letters in the source, written here without
  the accents.
\<close>

definition change_state ::
  "string option \<Rightarrow> string option \<Rightarrow> MaskAccessSystem \<Rightarrow> MaskAccessSystem" where
  "change_state new_state msg s =
     (if new_state \<noteq> last_state s then
        (case msg of
           None \<Rightarrow> s
         | Some m \<Rightarrow> if m = [] then s else s\<lparr>log_out := log_out s @ [m]\<rparr>)
        \<lparr>last_state := new_state\<rparr>
      else s)"

definition update_access :: "Config \<Rightarrow> real \<Rightarrow> MaskAccessSystem \<Rightarrow> exn + MaskAccessSystem" where
  "update_access cfg now s =
     bindE (has_mask cfg (predictions s)) (\<lambda>hm.
     bindE (has_face cfg (predictions s)) (\<lambda>hf.
       if hm then
         (case mask_start s of
            None \<Rightarrow> Inr (s\<lparr>mask_start := Some now\<rparr>)
          | Some t0 \<Rightarrow>
              if now - t0 \<ge> hold_time cfg then
                Inr ((change_state (Some ''liberado'') (Some ''Acesso liberado'') s)
                       \<lparr>access_granted := True\<rparr>)
              else Inr s)
       else if hf then
         Inr ((change_state (Some ''negado'') (Some ''Acesso negado: necessario mascara'')
                 (s\<lparr>mask_start := None\<rparr>))
                \<lparr>access_granted := False\<rparr>)
       else
         Inr (change_state None None (s\<lparr>mask_start := None\<rparr>))))"

text \<open>
  A run of frame ticks. Between two ticks the inference worker may have replaced
  \<^verbatim>\<open>self.predictions\<close>, so every tick comes with the time it reads and the snapshot it
  sees. An exception ends the loop of \<^verbatim>\<open>_process_frames\<close>.
\<close>

fun run_ticks ::
  "Config \<Rightarrow> (real \<times> detection list) list \<Rightarrow> MaskAccessSystem \<Rightarrow> exn + MaskAccessSystem" where
  "run_ticks cfg [] s = Inr s"
| "run_ticks cfg ((now, snapshot) # ticks) s =
     (case update_access cfg now (s\<lparr>predictions := snapshot\<rparr>) of
        Inl e \<Rightarrow> Inl e
      | Inr s' \<Rightarrow> run_ticks cfg ticks s')"

section \<open>The inference dispatcher: \<^verbatim>\<open>_enqueue\<close>, \<^verbatim>\<open>_infer_loop\<close>, \<^verbatim>\<open>_infer\<close>\<close>

text \<open>
  What the outside world answers to one inference cycle. \<open>encode_outcome\<close> is the result of
  \<^verbatim>\<open>cv2.resize\<close> and \<^verbatim>\<open>cv2.imencode\<close>, which run before the \<^verbatim>\<open>try\<close>: they raise,
  or return with the flag \<^verbatim>\<open>ok\<close> false, or succeed. \<open>post_result\<close> is the result of
  \<^verbatim>\<open>session.post\<close>: it raises (network error, timeout), or returns a response, of which
  the program uses two things: whether \<^verbatim>\<open>raise_for_status()\<close> returns (the flag), and
  what \<^verbatim>\<open>resp.json()\<close> gives (\<open>None\<close> when the body is not JSON and it raises).
\<close>

datatype encode_outcome = CvRaises | NotOk | Encoded

datatype post_result = PostRaises | Response bool "json option"

text \<open>The body of the \<^verbatim>\<open>try\<close> in \<^verbatim>\<open>_infer\<close>; \<open>now\<close> is the time read after \<^verbatim>\<open>_adjust\<close>.\<close>

definition infer_try ::
  "Config \<Rightarrow> frame \<Rightarrow> post_result \<Rightarrow> real \<Rightarrow> MaskAccessSystem \<Rightarrow> exn + MaskAccessSystem" where
  "infer_try cfg fr post now s =
     (case post of
        PostRaises \<Rightarrow> Inl RequestException
      | Response status_ok body \<Rightarrow>
          if \<not> status_ok then Inl HTTPError
          else
            (case body of
               None \<Rightarrow> Inl JSONDecodeError
             | Some (JObj kvs) \<Rightarrow>
                 (let data = (case map_of kvs ''predictions'' of None \<Rightarrow> JArr [] | Some v \<Rightarrow> v)
                  in bindE (adjust cfg data (shape_h fr, shape_w fr) s)
                       (\<lambda>s'. Inr (s'\<lparr>last_infer := now\<rparr>)))
             | Some _ \<Rightarrow> Inl AttributeError))"

text \<open>\<^verbatim>\<open>except Exception\<close>: the exception is logged at DEBUG level, below the configured
  level, and the object is left as it was.\<close>

definition infer_finish ::
  "Config \<Rightarrow> frame \<Rightarrow> post_result \<Rightarrow> real \<Rightarrow> MaskAccessSystem \<Rightarrow> MaskAccessSystem" where
  "infer_finish cfg fr post now s =
     (case infer_try cfg fr post now s of Inl e \<Rightarrow> s | Inr s' \<Rightarrow> s')"


text \<open>\<^verbatim>\<open>Queue.put\<close> with the default \<^verbatim>\<open>block=True\<close>: on a full queue the caller blocks,
  which is the value \<open>None\<close>.\<close>

definition queue_put :: "frame list \<Rightarrow> frame \<Rightarrow> frame list option" where
  "queue_put q fr =
     (if 0 < queue_maxsize \<and> queue_maxsize \<le> length q then None else Some (q @ [fr]))"

definition enqueue :: "Config \<Rightarrow> real \<Rightarrow> frame \<Rightarrow> MaskAccessSystem \<Rightarrow> MaskAccessSystem option" where
  "enqueue cfg now fr s =
     (if queue s = [] \<and> now - last_infer s > infer_interval cfg then
        (case queue_put (queue s) fr of None \<Rightarrow> None | Some q \<Rightarrow> Some (s\<lparr>queue := q\<rparr>))
      else Some s)"

text \<open>
  The two threads. The capture loop calls \<^verbatim>\<open>_enqueue\<close>; the worker of
  \<^verbatim>\<open>_infer_loop\<close> takes the pending frame, sends it, and is inside \<^verbatim>\<open>session.post\<close>
  until the answer comes, while the capture loop goes on. An execution, as long as
  \<^verbatim>\<open>running\<close> is true, is a sequence of events, each with the time it reads from the
  clock; \<open>calls\<close> records the time at which every network call was issued.
\<close>

datatype worker_status = Idle | InFlight frame | Dead

record world =
  sys :: MaskAccessSystem
  worker :: worker_status
  calls :: "real list"

datatype event =
    Submit real frame
  | WorkerGet encode_outcome real
  | WorkerReturn post_result real

definition init_world :: world where
  "init_world = \<lparr> sys = init, worker = Idle, calls = [] \<rparr>"

text \<open>
  One event; \<open>None\<close> when the capture loop would block in \<^verbatim>\<open>put\<close>. A \<open>WorkerGet\<close> on an
  empty queue is the \<^verbatim>\<open>Empty\<close> of the timeout, after which the loop goes round; an
  exception of the encoding step ends the worker thread.
\<close>

fun step :: "Config \<Rightarrow> event \<Rightarrow> world \<Rightarrow> world option" where
  "step cfg (Submit now fr) w =
     (case enqueue cfg now fr (sys w) of None \<Rightarrow> None | Some s' \<Rightarrow> Some (w\<lparr>sys := s'\<rparr>))"
| "step cfg (WorkerGet enc t) w =
     (case worker w of
        Idle \<Rightarrow>
          (case queue (sys w) of
             [] \<Rightarrow> Some w
           | fr # rest \<Rightarrow>
               (let w1 = w\<lparr>sys := (sys w)\<lparr>queue := rest\<rparr>\<rparr> in
                case enc of
                  CvRaises \<Rightarrow> Some (w1\<lparr>worker := Dead\<rparr>)
                | NotOk \<Rightarrow> Some w1
                | Encoded \<Rightarrow> Some (w1\<lparr>worker := InFlight fr, calls := calls w1 @ [t]\<rparr>)))
      | _ \<Rightarrow> Some w)"
| "step cfg (WorkerReturn post t) w =
     (case worker w of
        InFlight fr \<Rightarrow> Some (w\<lparr>sys := infer_finish cfg fr post t (sys w), worker := Idle\<rparr>)
      | _ \<Rightarrow> Some w)"

fun run :: "Config \<Rightarrow> event list \<Rightarrow> world \<Rightarrow> world option" where
  "run cfg [] w = Some w"
| "run cfg (ev # evs) w = (case step cfg ev w of None \<Rightarrow> None | Some w' \<Rightarrow> run cfg evs w')"

section \<open>The credential loop of \<^verbatim>\<open>projeto_camera.py\<close>\<close>

text \<open>The table \<^verbatim>\<open>tags\<close> and the lookup \<^verbatim>\<open>tag_autorizada\<close>, whose \<^verbatim>\<open>fetchone()\<close> gives
  the first matching row or \<^verbatim>\<open>None\<close>.\<close>

record tag_row =
  row_id :: nat
  nome :: string
  tag :: string

definition tag_autorizada :: "tag_row list \<Rightarrow> string \<Rightarrow> string option" where
  "tag_autorizada db t =
     (case filter (\<lambda>r. tag r = t) db of [] \<Rightarrow> None | r # _ \<Rightarrow> Some (nome r))"

text \<open>
  What one round of the loop in \<^verbatim>\<open>main\<close> does, as the list of its effects. The messages
  printed are named, not spelled.
\<close>

datatype message =
    TagDetectada string
  | TagNaoCadastrada
  | TagRegistrada string
  | Autorizada string
  | MascaraDetectada
  | NenhumaMascara
  | Pronto

datatype action =
    Print message
  | Sleep real
  | AppendErrorLog string
  | SerialWrite string
  | NewDetector
  | StartDetector
  | StopDetector
  | JoinDetector

definition ACESSO_OK :: string where
  "ACESSO_OK = ''ACESSO:OK'' @ [CHR 0x0A]"

definition ACESSO_NEGADO :: string where
  "ACESSO_NEGADO = ''ACESSO:NEGADO'' @ [CHR 0x0A]"

definition LCD_APROXIME :: string where
  "LCD_APROXIME = ''LCD:Aproxime o rosto'' @ [CHR 0x0A]"

definition log_tag_erro :: "string \<Rightarrow> action list" where
  "log_tag_erro t = [AppendErrorLog t, Print (TagRegistrada t)]"

text \<open>
  The polling loop \<^verbatim>\<open>while time.time() < deadline\<close> with its \<^verbatim>\<open>else\<close>: the list holds
  the value of \<^verbatim>\<open>detector.access_granted\<close> at each round entered before the deadline.
\<close>

fun poll_loop :: "bool list \<Rightarrow> action list" where
  "poll_loop [] = [Print NenhumaMascara, SerialWrite ACESSO_NEGADO]"
| "poll_loop (granted # later) =
     (if granted then [Print MascaraDetectada, SerialWrite ACESSO_OK]
      else Sleep (2 / 10) # poll_loop later)"

definition main_round :: "tag_row list \<Rightarrow> string option \<Rightarrow> bool list \<Rightarrow> action list" where
  "main_round db read polls =
     (case read of
        None \<Rightarrow> [Sleep (1 / 10)]
      | Some t \<Rightarrow>
          if t = [] then [Sleep (1 / 10)]
          else
            (case tag_autorizada db t of
               None \<Rightarrow>
                 [Print (TagDetectada t), Print TagNaoCadastrada] @ log_tag_erro t
                   @ [SerialWrite ACESSO_NEGADO, Sleep 1]
             | Some pessoa \<Rightarrow>
                 [Print (TagDetectada t), Print (Autorizada pessoa), SerialWrite LCD_APROXIME,
                  Sleep 1, NewDetector, StartDetector]
                   @ poll_loop polls
                   @ [StopDetector, JoinDetector, Sleep 1, Print Pronto, Sleep 1]))"

section \<open>The mapper as the specification words it\<close>

text \<open>
  The specification of the mapper, without exceptions: an entry gives a detection when the
  five fields x, y, width, height, confidence are there, and is left out otherwise. The
  box turns from centre-based to corner-based and is scaled by \<open>sx\<close> and \<open>sy\<close>; the label
  is the text under \<^verbatim>\<open>class\<close>, else under \<^verbatim>\<open>name\<close>, else empty, in lower case.
\<close>

definition num_field :: "(string \<times> json) list \<Rightarrow> string \<Rightarrow> real option" where
  "num_field kvs k = (case map_of kvs k of None \<Rightarrow> None | Some v \<Rightarrow> py_num v)"

definition label_value :: "(string \<times> json) list \<Rightarrow> json" where
  "label_value kvs =
     (case map_of kvs ''class'' of
        Some c \<Rightarrow> c
      | None \<Rightarrow> (case map_of kvs ''name'' of Some n \<Rightarrow> n | None \<Rightarrow> JStr []))"

definition label_text :: "(string \<times> json) list \<Rightarrow> string" where
  "label_text kvs = (case label_value kvs of JStr s \<Rightarrow> s | _ \<Rightarrow> [])"

definition spec_map_entry :: "real \<Rightarrow> real \<Rightarrow> json \<Rightarrow> detection option" where
  "spec_map_entry sx sy p =
     (case p of
        JObj kvs \<Rightarrow>
          (case (num_field kvs ''x'', num_field kvs ''y'', num_field kvs ''width'',
                 num_field kvs ''height'', map_of kvs ''confidence'') of
             (Some x, Some y, Some width, Some height, Some conf) \<Rightarrow>
               Some \<lparr> det_x = x * sx - width * sx / 2, det_y = y * sy - height * sy / 2,
                      det_w = width * sx, det_h = height * sy, det_conf = conf,
                      det_class = str_lower (label_text kvs) \<rparr>
           | _ \<Rightarrow> None)
      | _ \<Rightarrow> None)"


text \<open>
  The entries that are not dropped but end the mapping with an exception. Reading the
  fields in the given order, \<open>first_fault\<close> is what stops the reading: a missing field
  (KeyError) or a field that is not a number (TypeError), whichever comes first. An entry
  is faulty when it is not an object, when the value its label is read from is not a
  string, or when the reading of x, width, y, height stops at a field that is not a
  number. The confidence is never inspected.
\<close>

fun first_fault :: "(string \<times> json) list \<Rightarrow> string list \<Rightarrow> exn option" where
  "first_fault kvs [] = None"
| "first_fault kvs (k # ks) =
     (case map_of kvs k of
        None \<Rightarrow> Some KeyError
      | Some v \<Rightarrow> if py_num v = None then Some TypeError else first_fault kvs ks)"

definition entry_fault :: "json \<Rightarrow> exn option" where
  "entry_fault p =
     (case p of
        JObj kvs \<Rightarrow>
          (case label_value kvs of
             JStr s \<Rightarrow>
               if first_fault kvs [''x'', ''width'', ''y'', ''height''] = Some TypeError
               then Some TypeError else None
           | _ \<Rightarrow> Some AttributeError)
      | _ \<Rightarrow> Some AttributeError)"

text \<open>The exception of the first faulty entry of a list, if there is one.\<close>

fun list_fault :: "json list \<Rightarrow> exn option" where
  "list_fault [] = None"
| "list_fault (p # ps) = (case entry_fault p of Some e \<Rightarrow> Some e | None \<Rightarrow> list_fault ps)"

text \<open>A complete raw prediction, in the shape of the second scenario of the specification.\<close>

definition raw_prediction :: "real \<times> real \<times> real \<times> real \<times> real \<times> string \<Rightarrow> json" where
  "raw_prediction r =
     (case r of (x, y, width, height, conf, label) \<Rightarrow>
        JObj [(''x'', JNum x), (''y'', JNum y), (''width'', JNum width),
              (''height'', JNum height), (''confidence'', JNum conf), (''class'', JStr label)])"

section \<open>The failures of an inference cycle\<close>




section \<open>Inputs used in the examples\<close>

text \<open>The configuration that \<^verbatim>\<open>main\<close> builds (every tunable at its default, headless), and
  a frame of 512 by 384 pixels, and a detection of a given class and confidence, whose box
  plays no role in the decision.\<close>

definition main_cfg :: "string \<Rightarrow> Config" where
  "main_cfg k = (Config_defaults k ''cover-2'' ''10'')\<lparr>headless := True\<rparr>"

definition sample_frame :: "nat list \<Rightarrow> frame" where
  "sample_frame px = \<lparr> shape_h = 384, shape_w = 512, pixels = px \<rparr>"

definition detected :: "string \<Rightarrow> real \<Rightarrow> detection" where
  "detected c conf =
     \<lparr> det_x = 0, det_y = 0, det_w = 1, det_h = 1, det_conf = JNum conf, det_class = c \<rparr>"

section \<open>Reading the results of steps that may raise\<close>

lemma bindE_simps:
  "bindE (Inl e) f = Inl e" "bindE (Inr v) f = f v"
  by (simp_all add: bindE_def)

section \<open>Properties of the access state machine\<close>

lemma any_label_numeric:
  "\<forall>p \<in> set ps. py_num (det_conf p) \<noteq> None \<Longrightarrow>
   any_label labels thr ps =
     Inr (\<exists>p \<in> set ps. det_class p \<in> labels \<and> the (py_num (det_conf p)) \<ge> thr)"
  by (induction ps) (auto simp: py_ge_def split: option.splits)

text \<open>With numeric confidences, \<open>has_mask\<close> and \<open>has_face\<close> are the two tests of the
  specification: some detection with a label of the set and a confidence at or above the
  threshold.\<close>

lemma has_mask_numeric:
  "\<forall>p \<in> set ps. py_num (det_conf p) \<noteq> None \<Longrightarrow>
   has_mask cfg ps =
     Inr (\<exists>p \<in> set ps. det_class p = ''face-mask''
            \<and> the (py_num (det_conf p)) \<ge> mask_conf_threshold cfg)"
  by (simp add: has_mask_def MASK_LABELS_def any_label_numeric)

lemma has_face_numeric:
  "\<forall>p \<in> set ps. py_num (det_conf p) \<noteq> None \<Longrightarrow>
   has_face cfg ps =
     Inr (\<exists>p \<in> set ps. det_class p \<in> {''face'', ''balaclava'', ''mask'', ''face covering''}
            \<and> the (py_num (det_conf p)) \<ge> conf_threshold cfg)"
  by (simp add: has_face_def FACE_LABELS_def any_label_numeric)

lemma has_mask_detected:
  "has_mask (main_cfg k) [detected ''face-mask'' (19 / 20)] = Inr True"
  by (simp add: has_mask_def MASK_LABELS_def detected_def py_ge_def main_cfg_def
      Config_defaults_def)

lemma has_face_mask_detected:
  "has_face (main_cfg k) [detected ''face-mask'' (19 / 20)] = Inr False"
  by (simp add: has_face_def FACE_LABELS_def detected_def)

lemma has_mask_face_detected:
  "has_mask (main_cfg k) [detected ''face'' (9 / 10)] = Inr False"
  by (simp add: has_mask_def MASK_LABELS_def detected_def)

lemma has_face_detected:
  "has_face (main_cfg k) [detected ''face'' (9 / 10)] = Inr True"
  by (simp add: has_face_def FACE_LABELS_def detected_def py_ge_def main_cfg_def
      Config_defaults_def)

lemma main_cfg_tunables:
  "hold_time (main_cfg k) = 3" "infer_interval (main_cfg k) = 1 / 10"
  "resize_dim (main_cfg k) = (128, 96)"
  by (simp_all add: main_cfg_def Config_defaults_def)

lemma has_nothing: "has_mask cfg [] = Inr False" "has_face cfg [] = Inr False"
  by (simp_all add: has_mask_def has_face_def)

lemma update_access_mask:
  assumes "has_mask cfg (predictions s) = Inr True" and "\<not> isl (has_face cfg (predictions s))"
  shows "update_access cfg now s =
     (case mask_start s of
        None \<Rightarrow> Inr (s\<lparr>mask_start := Some now\<rparr>)
      | Some t0 \<Rightarrow>
          if now - t0 \<ge> hold_time cfg then
            Inr ((change_state (Some ''liberado'') (Some ''Acesso liberado'') s)
                   \<lparr>access_granted := True\<rparr>)
          else Inr s)"
  using assms by (cases "has_face cfg (predictions s)") (simp_all add: update_access_def bindE_def)

lemma update_access_face:
  assumes "has_mask cfg (predictions s) = Inr False" and "has_face cfg (predictions s) = Inr True"
  shows "update_access cfg now s =
     Inr ((change_state (Some ''negado'') (Some ''Acesso negado: necessario mascara'')
             (s\<lparr>mask_start := None\<rparr>))\<lparr>access_granted := False\<rparr>)"
  using assms by (simp add: update_access_def bindE_def)

lemma update_access_nothing:
  assumes "has_mask cfg (predictions s) = Inr False" and "has_face cfg (predictions s) = Inr False"
  shows "update_access cfg now s = Inr (change_state None None (s\<lparr>mask_start := None\<rparr>))"
  using assms by (simp add: update_access_def bindE_def)

lemma run_ticks_append:
  "run_ticks cfg (xs @ ys) s =
     (case run_ticks cfg xs s of Inl e \<Rightarrow> Inl e | Inr s' \<Rightarrow> run_ticks cfg ys s')"
  by (induction xs arbitrary: s) (auto split: sum.splits)

text \<open>While a mask is seen and the hold time has not passed, a tick changes nothing but the
  snapshot.\<close>

lemma holding_ticks:
  assumes "mask_start s = Some t0"
      and "\<forall>(now, snap) \<in> set ticks. has_mask cfg snap = Inr True \<and> \<not> isl (has_face cfg snap)
              \<and> now - t0 < hold_time cfg"
  shows "\<exists>s'. run_ticks cfg ticks s = Inr s' \<and> mask_start s' = Some t0
            \<and> last_state s' = last_state s \<and> access_granted s' = access_granted s"
  using assms
proof (induction ticks arbitrary: s)
  case Nil
  then show ?case by simp
next
  case (Cons tk ticks)
  obtain now snap where tk: "tk = (now, snap)" by (cases tk)
  let ?s1 = "s\<lparr>predictions := snap\<rparr>"
  from Cons.prems tk have hm: "has_mask cfg (predictions ?s1) = Inr True"
    and hf: "\<not> isl (has_face cfg (predictions ?s1))" and lt: "now - t0 < hold_time cfg"
    by auto
  have step: "update_access cfg now ?s1 = Inr ?s1"
    using update_access_mask [OF hm hf, of now] Cons.prems(1) lt by simp
  have "\<exists>s'. run_ticks cfg ticks ?s1 = Inr s' \<and> mask_start s' = Some t0
            \<and> last_state s' = last_state ?s1 \<and> access_granted s' = access_granted ?s1"
    using Cons.prems by (intro Cons.IH) auto
  then show ?case using step tk by simp
qed

lemma grant_tick:
  assumes "access_granted s"
      and "has_mask cfg (predictions s) = Inr True \<and> \<not> isl (has_face cfg (predictions s))
           \<or> has_mask cfg (predictions s) = Inr False \<and> has_face cfg (predictions s) = Inr False"
  shows "\<exists>s'. update_access cfg now s = Inr s' \<and> access_granted s'"
  using assms(2)
proof
  assume m: "has_mask cfg (predictions s) = Inr True \<and> \<not> isl (has_face cfg (predictions s))"
  then show ?thesis
    using update_access_mask [of cfg s now] assms(1) by (auto split: option.splits)
next
  assume "has_mask cfg (predictions s) = Inr False \<and> has_face cfg (predictions s) = Inr False"
  then show ?thesis
    using update_access_nothing [of cfg s now] assms(1) by (simp add: change_state_def)
qed

lemma liberado_tick:
  assumes "has_mask cfg (predictions s) = Inr True" and "\<not> isl (has_face cfg (predictions s))"
      and "last_state s = Some ''liberado''"
  shows "\<exists>s'. update_access cfg now s = Inr s' \<and> last_state s' = Some ''liberado''"
  using assms(3) update_access_mask [OF assms(1,2), of now]
  by (auto simp: change_state_def split: option.splits)

lemma grant_ticks:
  assumes "access_granted s"
      and "\<forall>(now, snap) \<in> set ticks.
             has_mask cfg snap = Inr True \<and> \<not> isl (has_face cfg snap)
             \<or> has_mask cfg snap = Inr False \<and> has_face cfg snap = Inr False"
  shows "\<exists>s'. run_ticks cfg ticks s = Inr s' \<and> access_granted s'"
  using assms
proof (induction ticks arbitrary: s)
  case Nil
  then show ?case by simp
next
  case (Cons tk ticks)
  obtain now snap where tk: "tk = (now, snap)" by (cases tk)
  let ?s1 = "s\<lparr>predictions := snap\<rparr>"
  have "access_granted ?s1" using Cons.prems(1) by simp
  moreover have "has_mask cfg (predictions ?s1) = Inr True \<and> \<not> isl (has_face cfg (predictions ?s1))
      \<or> has_mask cfg (predictions ?s1) = Inr False \<and> has_face cfg (predictions ?s1) = Inr False"
    using Cons.prems(2) tk by auto
  ultimately obtain s2 where s2: "update_access cfg now ?s1 = Inr s2" "access_granted s2"
    using grant_tick [of ?s1 cfg now] by blast
  have "\<exists>s'. run_ticks cfg ticks s2 = Inr s' \<and> access_granted s'"
    using s2(2) Cons.prems(2) by (intro Cons.IH) auto
  then show ?case using s2(1) tk by simp
qed

lemma liberado_ticks:
  assumes "last_state s = Some ''liberado''"
      and "\<forall>(now, snap) \<in> set ticks. has_mask cfg snap = Inr True \<and> \<not> isl (has_face cfg snap)"
      and "run_ticks cfg ticks s = Inr s'"
  shows "last_state s' = Some ''liberado''"
  using assms
proof (induction ticks arbitrary: s)
  case Nil
  then show ?case by simp
next
  case (Cons tk ticks)
  obtain now snap where tk: "tk = (now, snap)" by (cases tk)
  let ?s1 = "s\<lparr>predictions := snap\<rparr>"
  have "has_mask cfg (predictions ?s1) = Inr True" "\<not> isl (has_face cfg (predictions ?s1))"
    using Cons.prems(2) tk by auto
  moreover have "last_state ?s1 = Some ''liberado''" using Cons.prems(1) by simp
  ultimately obtain s2 where s2: "update_access cfg now ?s1 = Inr s2"
      "last_state s2 = Some ''liberado''"
    using liberado_tick [of cfg ?s1 now] by blast
  have "run_ticks cfg ticks s2 = Inr s'" using Cons.prems(3) s2(1) tk by simp
  then show ?case using s2(2) Cons.prems(2) by (intro Cons.IH [of s2]) auto
qed

text \<open>
  Claim C1, as amended. The claim says that a grant is never revoked. What holds: once
  \<open>access_granted\<close> is true, it stays true over every run of ticks none of which sees a
  face without a mask (each tick sees a mask, or neither a mask nor a face), and the state
  stays \<open>liberado\<close> (Granted) as long as every tick sees a mask.
\<close>

theorem grant_kept_without_bare_face:
  assumes "access_granted s"
      and "\<forall>(now, snap) \<in> set ticks.
             has_mask cfg snap = Inr True \<and> \<not> isl (has_face cfg snap)
             \<or> has_mask cfg snap = Inr False \<and> has_face cfg snap = Inr False"
  shows "\<exists>s'. run_ticks cfg ticks s = Inr s' \<and> access_granted s'
            \<and> (last_state s = Some ''liberado''
                 \<and> (\<forall>(now, snap) \<in> set ticks. has_mask cfg snap = Inr True)
               \<longrightarrow> last_state s' = Some ''liberado'')"
proof -
  obtain s' where s': "run_ticks cfg ticks s = Inr s'" "access_granted s'"
    using grant_ticks [OF assms] by blast
  have "last_state s' = Some ''liberado''"
    if st: "last_state s = Some ''liberado''"
      and all: "\<forall>(now, snap) \<in> set ticks. has_mask cfg snap = Inr True"
  proof -
    have "\<forall>(now, snap) \<in> set ticks. has_mask cfg snap = Inr True \<and> \<not> isl (has_face cfg snap)"
      using assms(2) all by fastforce
    then show ?thesis using liberado_ticks [OF st _ s'(1)] by blast
  qed
  then show ?thesis using s' by blast
qed

theorem grant_kept_without_bare_face_witness:
  "access_granted (init\<lparr>last_state := Some ''liberado'', access_granted := True\<rparr>)
   \<and> has_mask (main_cfg ''k'') [detected ''face-mask'' (19 / 20)] = Inr True
   \<and> \<not> isl (has_face (main_cfg ''k'') [detected ''face-mask'' (19 / 20)])
   \<and> (\<exists>s'. run_ticks (main_cfg ''k'')
              [(14, [detected ''face-mask'' (19 / 20)]), (15, [detected ''face-mask'' (19 / 20)])]
              (init\<lparr>last_state := Some ''liberado'', access_granted := True\<rparr>) = Inr s'
            \<and> access_granted s' \<and> last_state s' = Some ''liberado'')"
proof -
  let ?g = "init\<lparr>last_state := Some ''liberado'', access_granted := True\<rparr>"
  let ?m = "[detected ''face-mask'' (19 / 20)]"
  have g: "access_granted ?g" by simp
  have st: "last_state ?g = Some ''liberado''" by simp
  have hm: "has_mask (main_cfg ''k'') ?m = Inr True" by (rule has_mask_detected)
  have hf: "\<not> isl (has_face (main_cfg ''k'') ?m)" by (simp add: has_face_mask_detected)
  have all: "\<forall>(now, snap) \<in> set [(14, ?m), (15, ?m)].
      has_mask (main_cfg ''k'') snap = Inr True \<and> \<not> isl (has_face (main_cfg ''k'') snap)
      \<or> has_mask (main_cfg ''k'') snap = Inr False \<and> has_face (main_cfg ''k'') snap = Inr False"
    using hm hf by simp
  show ?thesis
    using grant_kept_without_bare_face [OF g all] g st hm hf by simp
qed

text \<open>
  Claim C1 as stated fails. With the configuration of \<^verbatim>\<open>main\<close>, a mask seen at times 10
  and 13 grants access; a bare face seen at time 14 takes the state to \<open>negado\<close> and sets
  \<open>access_granted\<close> back to false.
\<close>

theorem grant_revoked_by_bare_face:
  "run_ticks (main_cfg ''k'')
     [(10, [detected ''face-mask'' (19 / 20)]), (13, [detected ''face-mask'' (19 / 20)])] init
   = Inr \<lparr> predictions = [detected ''face-mask'' (19 / 20)], last_infer = 0,
           last_state = Some ''liberado'', mask_start = Some 10, access_granted = True,
           running = True, queue = [], log_out = [''Acesso liberado''] \<rparr>
   \<and> run_ticks (main_cfg ''k'')
     [(10, [detected ''face-mask'' (19 / 20)]), (13, [detected ''face-mask'' (19 / 20)]),
      (14, [detected ''face'' (9 / 10)])] init
   = Inr \<lparr> predictions = [detected ''face'' (9 / 10)], last_infer = 0,
           last_state = Some ''negado'', mask_start = None, access_granted = False,
           running = True, queue = [],
           log_out = [''Acesso liberado'', ''Acesso negado: necessario mascara''] \<rparr>"
  by (simp add: update_access_def bindE_def has_mask_detected has_face_mask_detected
      has_mask_face_detected has_face_detected change_state_def init_def main_cfg_tunables)

text \<open>
  Claim C2, as amended. From a state with no hold-start, over ticks that all see a mask:
  the first tick records its time as the hold-start and changes nothing else; the ticks
  that come before the hold time has passed leave the decision as it was; and the first
  later tick at which the time since the hold-start is at least \<open>hold_time\<close> sets the state
  to \<open>liberado\<close> (Granted) and \<open>access_granted\<close> to true.
\<close>

theorem hold_then_grant:
  assumes "mask_start s = None"
      and "\<forall>(now, snap) \<in> set ((t0, p0) # before @ [(t, p)]).
              has_mask cfg snap = Inr True \<and> \<not> isl (has_face cfg snap)"
      and "\<forall>(now, snap) \<in> set before. now - t0 < hold_time cfg"
      and "t - t0 \<ge> hold_time cfg"
  shows "run_ticks cfg [(t0, p0)] s = Inr (s\<lparr>predictions := p0, mask_start := Some t0\<rparr>)
       \<and> (\<exists>s1. run_ticks cfg ((t0, p0) # before) s = Inr s1 \<and> mask_start s1 = Some t0
                \<and> last_state s1 = last_state s \<and> access_granted s1 = access_granted s)
       \<and> (\<exists>s2. run_ticks cfg ((t0, p0) # before @ [(t, p)]) s = Inr s2
                \<and> mask_start s2 = Some t0 \<and> last_state s2 = Some ''liberado''
                \<and> access_granted s2)"
proof -
  let ?s0 = "s\<lparr>predictions := p0\<rparr>"
  let ?sa = "s\<lparr>predictions := p0, mask_start := Some t0\<rparr>"
  have hm0: "has_mask cfg (predictions ?s0) = Inr True"
    and hf0: "\<not> isl (has_face cfg (predictions ?s0))"
    using assms(2) by auto
  have first: "update_access cfg t0 ?s0 = Inr ?sa"
    using update_access_mask [OF hm0 hf0, of t0] assms(1) by simp
  have "\<forall>(now, snap) \<in> set before. has_mask cfg snap = Inr True
           \<and> \<not> isl (has_face cfg snap) \<and> now - t0 < hold_time cfg"
    using assms(2,3) by auto
  then obtain s1 where s1: "run_ticks cfg before ?sa = Inr s1" "mask_start s1 = Some t0"
      "last_state s1 = last_state ?sa" "access_granted s1 = access_granted ?sa"
    using holding_ticks [of ?sa t0 before cfg] by auto
  let ?s1p = "s1\<lparr>predictions := p\<rparr>"
  have hm: "has_mask cfg (predictions ?s1p) = Inr True"
    and hf: "\<not> isl (has_face cfg (predictions ?s1p))"
    using assms(2) by auto
  have last: "update_access cfg t ?s1p =
      Inr ((change_state (Some ''liberado'') (Some ''Acesso liberado'') ?s1p)
             \<lparr>access_granted := True\<rparr>)"
    using update_access_mask [OF hm hf, of t] s1(2) assms(4) by simp
  have A: "run_ticks cfg [(t0, p0)] s = Inr ?sa" using first by simp
  have B: "run_ticks cfg ((t0, p0) # before) s = Inr s1" using first s1(1) by simp
  have C: "run_ticks cfg ((t0, p0) # before @ [(t, p)]) s =
      Inr ((change_state (Some ''liberado'') (Some ''Acesso liberado'') ?s1p)
             \<lparr>access_granted := True\<rparr>)"
    using first s1(1) last by (simp add: run_ticks_append)
  show ?thesis
    unfolding A B C using s1 by (simp add: change_state_def)
qed

theorem hold_then_grant_witness:
  "mask_start init = None
   \<and> has_mask (main_cfg ''k'') [detected ''face-mask'' (19 / 20)] = Inr True
   \<and> \<not> isl (has_face (main_cfg ''k'') [detected ''face-mask'' (19 / 20)])
   \<and> (11::real) - 10 < hold_time (main_cfg ''k'')
   \<and> (13::real) - 10 \<ge> hold_time (main_cfg ''k'')
   \<and> run_ticks (main_cfg ''k'') [(10, [detected ''face-mask'' (19 / 20)])] init
       = Inr (init\<lparr>predictions := [detected ''face-mask'' (19 / 20)], mask_start := Some 10\<rparr>)
   \<and> (\<exists>s2. run_ticks (main_cfg ''k'')
               [(10, [detected ''face-mask'' (19 / 20)]),
                (11, [detected ''face-mask'' (19 / 20)]),
                (13, [detected ''face-mask'' (19 / 20)])] init = Inr s2
            \<and> mask_start s2 = Some 10 \<and> last_state s2 = Some ''liberado''
            \<and> access_granted s2)"
proof -
  let ?m = "[detected ''face-mask'' (19 / 20)]"
  let ?cfg = "main_cfg ''k''"
  have h1: "mask_start init = None" by (simp add: init_def)
  have hm: "has_mask ?cfg ?m = Inr True" by (rule has_mask_detected)
  have hf: "\<not> isl (has_face ?cfg ?m)" by (simp add: has_face_mask_detected)
  have h2: "\<forall>(now, snap) \<in> set ((10, ?m) # [(11, ?m)] @ [(13, ?m)]).
              has_mask ?cfg snap = Inr True \<and> \<not> isl (has_face ?cfg snap)"
    using hm hf by simp
  have lt: "(11::real) - 10 < hold_time ?cfg" by (simp add: main_cfg_tunables)
  have h3: "\<forall>(now, snap) \<in> set [(11::real, ?m)]. now - 10 < hold_time ?cfg"
    using lt by simp
  have h4: "(13::real) - 10 \<ge> hold_time ?cfg" by (simp add: main_cfg_tunables)
  show ?thesis
    using hold_then_grant [OF h1 h2 h3 h4] h1 hm hf lt h4 by simp
qed

text \<open>
  Claim C2 as stated fails when \<open>hold_time\<close> is not positive. With \<open>hold_time = 0\<close> the
  first tick of a run that sees a mask is already a tick at which the time since the
  hold-start (zero) is at least \<open>hold_time\<close>, but that tick only records the hold-start:
  the state is unchanged and \<open>access_granted\<close> is still false after it.
\<close>

theorem no_grant_on_first_tick:
  "run_ticks ((main_cfg ''k'')\<lparr>hold_time := 0\<rparr>) [(10, [detected ''face-mask'' (19 / 20)])] init
   = Inr \<lparr> predictions = [detected ''face-mask'' (19 / 20)], last_infer = 0,
           last_state = None, mask_start = Some 10, access_granted = False,
           running = True, queue = [], log_out = [] \<rparr>
   \<and> (10::real) - 10 \<ge> hold_time ((main_cfg ''k'')\<lparr>hold_time := 0\<rparr>)"
  by (simp add: update_access_def bindE_def has_mask_def has_face_def MASK_LABELS_def
      FACE_LABELS_def detected_def py_ge_def init_def main_cfg_def Config_defaults_def)

text \<open>
  Claim C7. On a tick where \<open>has_face\<close> is true and \<open>has_mask\<close> is false, whatever the
  state and the time, the hold-start becomes \<open>None\<close> and the state becomes \<open>negado\<close>
  (Denied); the same branch sets \<open>access_granted\<close> to false.
\<close>

theorem face_without_mask_denies:
  assumes "has_mask cfg (predictions s) = Inr False"
      and "has_face cfg (predictions s) = Inr True"
  shows "\<exists>s'. update_access cfg now s = Inr s' \<and> mask_start s' = None
            \<and> last_state s' = Some ''negado'' \<and> \<not> access_granted s'"
  using update_access_face [OF assms, of now] by (simp add: change_state_def)

theorem face_without_mask_denies_witness:
  "has_mask (main_cfg ''k'')
     (predictions (init\<lparr>predictions := [detected ''face'' (9 / 10)], mask_start := Some 10\<rparr>))
     = Inr False
   \<and> has_face (main_cfg ''k'')
     (predictions (init\<lparr>predictions := [detected ''face'' (9 / 10)], mask_start := Some 10\<rparr>))
     = Inr True
   \<and> (\<exists>s'. update_access (main_cfg ''k'') 11
              (init\<lparr>predictions := [detected ''face'' (9 / 10)], mask_start := Some 10\<rparr>) = Inr s'
            \<and> mask_start s' = None \<and> last_state s' = Some ''negado'' \<and> \<not> access_granted s')"
proof -
  let ?s = "init\<lparr>predictions := [detected ''face'' (9 / 10)], mask_start := Some 10\<rparr>"
  have hm: "has_mask (main_cfg ''k'') (predictions ?s) = Inr False"
    by (simp add: has_mask_face_detected)
  have hf: "has_face (main_cfg ''k'') (predictions ?s) = Inr True"
    by (simp add: has_face_detected)
  show ?thesis
    using face_without_mask_denies [OF hm hf, of 11] hm hf by simp
qed

text \<open>
  Claim C10. On a tick where \<open>has_mask\<close> and \<open>has_face\<close> are both false (an empty snapshot
  is one), the hold-start becomes \<open>None\<close>, the state becomes \<open>None\<close> (Idle), and
  \<open>access_granted\<close> keeps the value it had; where \<open>has_face\<close> is true instead, the tick
  leaves \<open>access_granted\<close> false.
\<close>

theorem no_detection_idles:
  assumes "has_mask cfg (predictions s) = Inr False"
  shows "(has_face cfg (predictions s) = Inr False \<longrightarrow>
            (\<exists>s'. update_access cfg now s = Inr s' \<and> mask_start s' = None
               \<and> last_state s' = None \<and> access_granted s' = access_granted s))
       \<and> (has_face cfg (predictions s) = Inr True \<longrightarrow>
            (\<exists>s'. update_access cfg now s = Inr s' \<and> \<not> access_granted s'))"
  using update_access_nothing [OF assms, of now] update_access_face [OF assms, of now]
  by (simp add: change_state_def)

theorem no_detection_idles_witness:
  "has_mask (main_cfg ''k'')
     (predictions (init\<lparr>last_state := Some ''liberado'', mask_start := Some 10,
                        access_granted := True\<rparr>)) = Inr False
   \<and> has_face (main_cfg ''k'')
     (predictions (init\<lparr>last_state := Some ''liberado'', mask_start := Some 10,
                        access_granted := True\<rparr>)) = Inr False
   \<and> (\<exists>s'. update_access (main_cfg ''k'') 14
              (init\<lparr>last_state := Some ''liberado'', mask_start := Some 10,
                    access_granted := True\<rparr>) = Inr s'
            \<and> mask_start s' = None \<and> last_state s' = None \<and> access_granted s')
   \<and> has_mask (main_cfg ''k'')
     (predictions (init\<lparr>predictions := [detected ''face'' (9 / 10)],
                        access_granted := True\<rparr>)) = Inr False
   \<and> has_face (main_cfg ''k'')
     (predictions (init\<lparr>predictions := [detected ''face'' (9 / 10)],
                        access_granted := True\<rparr>)) = Inr True
   \<and> (\<exists>s'. update_access (main_cfg ''k'') 14
              (init\<lparr>predictions := [detected ''face'' (9 / 10)], access_granted := True\<rparr>)
              = Inr s'
            \<and> \<not> access_granted s')"
proof -
  let ?e = "init\<lparr>last_state := Some ''liberado'', mask_start := Some 10,
                 access_granted := True\<rparr>"
  let ?f = "init\<lparr>predictions := [detected ''face'' (9 / 10)], access_granted := True\<rparr>"
  have e: "predictions ?e = []" by (simp add: init_def)
  have hme: "has_mask (main_cfg ''k'') (predictions ?e) = Inr False"
    unfolding e by (rule has_nothing)
  have hfe: "has_face (main_cfg ''k'') (predictions ?e) = Inr False"
    unfolding e by (rule has_nothing)
  have hmf: "has_mask (main_cfg ''k'') (predictions ?f) = Inr False"
    by (simp add: has_mask_face_detected)
  have hff: "has_face (main_cfg ''k'') (predictions ?f) = Inr True"
    by (simp add: has_face_detected)
  show ?thesis
    using no_detection_idles [OF hme, of 14] no_detection_idles [OF hmf, of 14]
      hme hfe hmf hff by simp
qed

section \<open>Properties of the prediction mapper\<close>

lemma py_mul_num: "py_num v = Some r \<Longrightarrow> py_mul v s = Inr (r * s)"
  by (simp add: py_mul_def)

lemma py_mul_not_num: "py_num v = None \<Longrightarrow> py_mul v s = Inl TypeError"
  by (simp add: py_mul_def)

lemma getitem_simps:
  "map_of kvs k = None \<Longrightarrow> getitem kvs k = Inl KeyError"
  "map_of kvs k = Some v \<Longrightarrow> getitem kvs k = Inr v"
  by (simp_all add: getitem_def)

lemma entry_label_outcome:
  "entry_label (JObj kvs) =
     (case label_value kvs of JStr s \<Rightarrow> Inr (str_lower s) | _ \<Rightarrow> Inl AttributeError)"
  by (simp add: entry_label_def label_value_def split: option.splits)

text \<open>The \<^verbatim>\<open>try\<close> of the loop body stops where \<open>first_fault\<close> says, or at a missing
  confidence, or gives the box of the specification.\<close>

lemma entry_box_outcome:
  "entry_box sx sy kvs =
     (case first_fault kvs [''x'', ''width'', ''y'', ''height''] of
        Some e \<Rightarrow> Inl e
      | None \<Rightarrow>
          (case (num_field kvs ''x'', num_field kvs ''y'', num_field kvs ''width'',
                 num_field kvs ''height'', map_of kvs ''confidence'') of
             (Some x, Some y, Some width, Some height, Some conf) \<Rightarrow>
               Inr (x * sx - width * sx / 2, y * sy - height * sy / 2, width * sx,
                    height * sy, conf)
           | _ \<Rightarrow> Inl KeyError))"
proof (cases "map_of kvs ''x''")
  case None
  then show ?thesis by (simp add: entry_box_def bindE_simps getitem_simps)
next
  case (Some vx)
  show ?thesis
  proof (cases "py_num vx")
    case None
    then show ?thesis
      using Some by (simp add: entry_box_def bindE_simps getitem_simps py_mul_not_num)
  next
    case xn: (Some x)
    show ?thesis
    proof (cases "map_of kvs ''width''")
      case None
      then show ?thesis
        using Some xn by (simp add: entry_box_def bindE_simps getitem_simps py_mul_num)
    next
      case wSome: (Some vw)
      show ?thesis
      proof (cases "py_num vw")
        case None
        then show ?thesis
          using Some xn wSome
          by (simp add: entry_box_def bindE_simps getitem_simps py_mul_num py_mul_not_num)
      next
        case wn: (Some wd)
        show ?thesis
        proof (cases "map_of kvs ''y''")
          case None
          then show ?thesis
            using Some xn wSome wn
            by (simp add: entry_box_def bindE_simps getitem_simps py_mul_num)
        next
          case ySome: (Some vy)
          show ?thesis
          proof (cases "py_num vy")
            case None
            then show ?thesis
              using Some xn wSome wn ySome
              by (simp add: entry_box_def bindE_simps getitem_simps py_mul_num
                  py_mul_not_num)
          next
            case yn: (Some y)
            show ?thesis
            proof (cases "map_of kvs ''height''")
              case None
              then show ?thesis
                using Some xn wSome wn ySome yn
                by (simp add: entry_box_def bindE_simps getitem_simps py_mul_num)
            next
              case hSome: (Some vh)
              show ?thesis
              proof (cases "py_num vh")
                case None
                then show ?thesis
                  using Some xn wSome wn ySome yn hSome
                  by (simp add: entry_box_def bindE_simps getitem_simps py_mul_num
                      py_mul_not_num)
              next
                case hn: (Some ht)
                show ?thesis
                  using Some xn wSome wn ySome yn hSome hn
                  by (cases "map_of kvs ''confidence''")
                     (simp_all add: entry_box_def bindE_simps getitem_simps py_mul_num
                        num_field_def)
              qed
            qed
          qed
        qed
      qed
    qed
  qed
qed

lemma first_fault_kinds: "first_fault kvs ks = Some e \<Longrightarrow> e = KeyError \<or> e = TypeError"
  by (induction ks) (auto split: option.splits if_splits)

lemma first_fault_KeyError:
  "first_fault kvs ks = Some KeyError \<Longrightarrow> \<exists>k \<in> set ks. map_of kvs k = None"
  by (induction ks) (auto split: option.splits if_splits)



lemma spec_map_entry_missing:
  assumes "k \<in> {''x'', ''width'', ''y'', ''height''}" and "map_of kvs k = None"
  shows "spec_map_entry sx sy (JObj kvs) = None"
proof -
  have "num_field kvs k = None" using assms(2) by (simp add: num_field_def)
  then show ?thesis
    using assms(1) by (auto simp: spec_map_entry_def split: option.splits)
qed

text \<open>The loop body of \<^verbatim>\<open>_adjust\<close> on any entry: the exception of a faulty entry, and
  the mapping of the specification on every other.\<close>

lemma adjust_entry_outcome:
  "adjust_entry sx sy p =
     (case entry_fault p of Some e \<Rightarrow> Inl e | None \<Rightarrow> Inr (spec_map_entry sx sy p))"
proof (cases p)
  case (JObj kvs)
  show ?thesis
  proof (cases "label_value kvs")
    case (JStr s)
    have lt: "label_text kvs = s" using JStr by (simp add: label_text_def)
    show ?thesis
    proof (cases "first_fault kvs [''x'', ''width'', ''y'', ''height'']")
      case None
      then show ?thesis
        using JObj JStr lt
        by (simp add: adjust_entry_def bindE_simps entry_label_outcome entry_box_outcome
            entry_fault_def spec_map_entry_def split: option.splits)
    next
      case (Some e)
      from first_fault_kinds [OF Some] show ?thesis
      proof
        assume e: "e = KeyError"
        then obtain k where "k \<in> set [''x'', ''width'', ''y'', ''height'']"
            "map_of kvs k = None"
          using first_fault_KeyError Some by blast
        then have "spec_map_entry sx sy (JObj kvs) = None"
          using spec_map_entry_missing [of k kvs sx sy] by simp
        then show ?thesis
          using JObj JStr Some e
          by (simp add: adjust_entry_def bindE_simps entry_label_outcome entry_box_outcome
              entry_fault_def)
      next
        assume "e = TypeError"
        then show ?thesis
          using JObj JStr Some
          by (simp add: adjust_entry_def bindE_simps entry_label_outcome entry_box_outcome
              entry_fault_def)
      qed
    qed
  qed (use JObj in \<open>simp_all add: adjust_entry_def bindE_simps entry_label_outcome
        entry_fault_def\<close>)
qed (simp_all add: adjust_entry_def entry_label_def entry_fault_def bindE_simps)

lemma adjust_loop_outcome:
  "adjust_loop sx sy ps adjusted =
     (case list_fault ps of
        Some e \<Rightarrow> Inl e
      | None \<Rightarrow> Inr (adjusted @ List.map_filter (spec_map_entry sx sy) ps))"
proof (induction ps arbitrary: adjusted)
  case Nil
  then show ?case by simp
next
  case (Cons p ps)
  show ?case
  proof (cases "entry_fault p")
    case None
    then show ?thesis
      using Cons.IH
      by (cases "spec_map_entry sx sy p")
         (simp_all add: adjust_entry_outcome split: option.splits)
  next
    case (Some e)
    then show ?thesis by (simp add: adjust_entry_outcome)
  qed
qed


lemma adjust_array:
  assumes "resize_dim cfg = (iw, ih)" and "iw \<noteq> 0" and "ih \<noteq> 0"
  shows "adjust cfg (JArr ps) (h, w) s =
     (case list_fault ps of
        Some e \<Rightarrow> Inl e
      | None \<Rightarrow>
          Inr (s\<lparr>predictions :=
                   List.map_filter
                     (spec_map_entry (real w / real_of_int iw) (real h / real_of_int ih)) ps\<rparr>))"
  using assms
  by (simp add: adjust_def bindE_simps py_truediv_def adjust_loop_outcome split: option.splits)


lemma raw_prediction_no_fault: "entry_fault (raw_prediction r) = None"
  by (cases r) (simp add: raw_prediction_def entry_fault_def label_value_def)

lemma raw_predictions_no_fault: "list_fault (map raw_prediction rs) = None"
  by (induction rs) (simp_all add: raw_prediction_no_fault)

lemma spec_map_raw_prediction:
  "spec_map_entry sx sy (raw_prediction (x, y, width, height, conf, label)) =
     Some \<lparr> det_x = x * sx - width * sx / 2, det_y = y * sy - height * sy / 2,
            det_w = width * sx, det_h = height * sy, det_conf = JNum conf,
            det_class = str_lower label \<rparr>"
  by (simp add: raw_prediction_def spec_map_entry_def num_field_def label_text_def
      label_value_def)

lemma map_filter_raw_predictions:
  "List.map_filter (spec_map_entry sx sy) (map raw_prediction rs) =
     map (\<lambda>(x, y, width, height, conf, label).
            \<lparr> det_x = x * sx - width * sx / 2, det_y = y * sy - height * sy / 2,
              det_w = width * sx, det_h = height * sy, det_conf = JNum conf,
              det_class = str_lower label \<rparr>) rs"
proof (induction rs)
  case Nil
  then show ?case by simp
next
  case (Cons r rs)
  obtain x y width height conf label where r: "r = (x, y, width, height, conf, label)"
    by (cases r)
  show ?case using Cons.IH unfolding r by (simp add: spec_map_raw_prediction)
qed

lemma str_lower_face_mask: "str_lower ''face-mask'' = ''face-mask''"
  by code_simp



text \<open>
  Claim C3. With inference resolution \<open>(iw, ih)\<close> and a frame of height \<open>h\<close> and width \<open>w\<close>,
  \<^verbatim>\<open>_adjust\<close> maps every complete raw prediction, a centre-based box, to the
  corner-based box scaled by \<open>sx = w / iw\<close> and \<open>sy = h / ih\<close>:
  \<open>x1 = x * sx - width * sx / 2\<close>, \<open>y1 = y * sy - height * sy / 2\<close>, width \<open>width * sx\<close>,
  height \<open>height * sy\<close>. The witness is the second scenario of the specification.
\<close>

theorem adjust_scales_boxes:
  assumes "resize_dim cfg = (iw, ih)" and "iw \<noteq> 0" and "ih \<noteq> 0"
  shows "adjust cfg (JArr (map raw_prediction rs)) (h, w) s =
     Inr (s\<lparr>predictions :=
       map (\<lambda>(x, y, width, height, conf, label).
              let sx = real w / real_of_int iw; sy = real h / real_of_int ih in
              \<lparr> det_x = x * sx - width * sx / 2, det_y = y * sy - height * sy / 2,
                det_w = width * sx, det_h = height * sy, det_conf = JNum conf,
                det_class = str_lower label \<rparr>) rs\<rparr>)"
  using adjust_array [OF assms, of "map raw_prediction rs" h w s]
  by (simp add: raw_predictions_no_fault map_filter_raw_predictions Let_def)

theorem adjust_scales_boxes_witness:
  "resize_dim (main_cfg ''k'') = (128, 96) \<and> (128::int) \<noteq> 0 \<and> (96::int) \<noteq> 0
   \<and> adjust (main_cfg ''k'')
        (JArr [JObj [(''x'', JNum 64), (''y'', JNum 48), (''width'', JNum 40),
                     (''height'', JNum 30), (''confidence'', JNum (8 / 10)),
                     (''class'', JStr ''face-mask'')]])
        (384, 512) init
     = Inr (init\<lparr>predictions :=
              [\<lparr> det_x = 176, det_y = 132, det_w = 160, det_h = 120,
                 det_conf = JNum (8 / 10), det_class = ''face-mask'' \<rparr>]\<rparr>)"
proof -
  have h1: "resize_dim (main_cfg ''k'') = (128, 96)" by (rule main_cfg_tunables)
  have h2: "(128::int) \<noteq> 0" and h3: "(96::int) \<noteq> 0" by simp_all
  show ?thesis
    using adjust_scales_boxes [OF h1 h2 h3, of "[(64, 48, 40, 30, 8 / 10, ''face-mask'')]" 384 512 init]
      h1 by (simp add: raw_prediction_def str_lower_face_mask)
qed




section \<open>Properties of the inference dispatcher\<close>







lemma adjust_queue: "adjust cfg v dims s = Inr s' \<Longrightarrow> queue s' = queue s"
  by (cases dims) (auto simp: adjust_def bindE_def split: sum.splits)

lemma infer_finish_queue: "queue (infer_finish cfg fr post now s) = queue s"
proof (cases "infer_try cfg fr post now s")
  case (Inl e)
  then show ?thesis by (simp add: infer_finish_def)
next
  case (Inr s')
  then have "queue s' = queue s"
    by (auto simp: infer_try_def bindE_def dest: adjust_queue
        split: post_result.splits if_splits option.splits json.splits sum.splits)
  then show ?thesis using Inr by (simp add: infer_finish_def)
qed

lemma enqueue_never_blocks: "\<exists>s'. enqueue cfg now fr s = Some s'"
  by (simp add: enqueue_def queue_put_def queue_maxsize_def)

lemma enqueue_queue_bound:
  "enqueue cfg now fr s = Some s' \<Longrightarrow> length (queue s) \<le> 1 \<Longrightarrow> length (queue s') \<le> 1"
  by (auto simp: enqueue_def queue_put_def queue_maxsize_def split: if_splits)

lemma step_never_blocks: "\<exists>w'. step cfg ev w = Some w'"
proof (cases ev)
  case (Submit now fr)
  then show ?thesis using enqueue_never_blocks [of cfg now fr "sys w"] by auto
next
  case (WorkerGet enc t)
  then show ?thesis
    by (auto simp: Let_def split: worker_status.splits list.splits encode_outcome.splits)
next
  case (WorkerReturn post t)
  then show ?thesis by (auto split: worker_status.splits)
qed

lemma step_queue_bound:
  assumes "step cfg ev w = Some w'" and "length (queue (sys w)) \<le> 1"
  shows "length (queue (sys w')) \<le> 1"
proof (cases ev)
  case (Submit now fr)
  then show ?thesis
    using assms enqueue_queue_bound [of cfg now fr "sys w"] by (auto split: option.splits)
next
  case (WorkerGet enc t)
  then show ?thesis
    using assms
    by (auto simp: Let_def split: worker_status.splits list.splits encode_outcome.splits)
next
  case (WorkerReturn post t)
  then show ?thesis
    using assms by (auto simp: infer_finish_queue split: worker_status.splits)
qed

lemma run_append:
  "run cfg (xs @ ys) w = (case run cfg xs w of None \<Rightarrow> None | Some w' \<Rightarrow> run cfg ys w')"
  by (induction xs arbitrary: w) (auto split: option.splits)

lemma run_queue_bound:
  "length (queue (sys w)) \<le> 1 \<Longrightarrow>
   \<exists>w'. run cfg evs w = Some w' \<and> length (queue (sys w')) \<le> 1"
proof (induction evs arbitrary: w)
  case Nil
  then show ?case by simp
next
  case (Cons ev evs)
  obtain w1 where w1: "step cfg ev w = Some w1" using step_never_blocks by blast
  then have "length (queue (sys w1)) \<le> 1" using step_queue_bound Cons.prems by blast
  from Cons.IH [OF this] show ?case using w1 by simp
qed

lemma submit_pending_noop: "queue (sys w) \<noteq> [] \<Longrightarrow> step cfg (Submit now fr) w = Some w"
  by (simp add: enqueue_def)




text \<open>
  Claim C5, as amended. \<^verbatim>\<open>_enqueue\<close> does nothing whenever the time since \<open>last_infer\<close>,
  the end of the last inference that succeeded (zero before the first), is at most
  \<open>infer_interval\<close>: the state is unchanged, and so is every continuation of the execution.
  This bounds when a frame is accepted, not how far apart two network calls are.
\<close>

theorem submit_throttled:
  assumes "now - last_infer (sys w) \<le> infer_interval cfg"
  shows "enqueue cfg now fr (sys w) = Some (sys w)
       \<and> run cfg (Submit now fr # later) w = run cfg later w"
  using assms by (simp add: enqueue_def)

theorem submit_throttled_witness:
  "(2001 / 20 :: real) - last_infer (sys (init_world\<lparr>sys := init\<lparr>last_infer := 100\<rparr>\<rparr>))
      \<le> infer_interval (main_cfg ''k'')
   \<and> enqueue (main_cfg ''k'') (2001 / 20) (sample_frame [1])
        (sys (init_world\<lparr>sys := init\<lparr>last_infer := 100\<rparr>\<rparr>))
      = Some (sys (init_world\<lparr>sys := init\<lparr>last_infer := 100\<rparr>\<rparr>))
   \<and> run (main_cfg ''k'') [Submit (2001 / 20) (sample_frame [1]), WorkerGet Encoded (2002 / 20)]
        (init_world\<lparr>sys := init\<lparr>last_infer := 100\<rparr>\<rparr>)
      = run (main_cfg ''k'') [WorkerGet Encoded (2002 / 20)]
          (init_world\<lparr>sys := init\<lparr>last_infer := 100\<rparr>\<rparr>)"
proof -
  let ?w = "init_world\<lparr>sys := init\<lparr>last_infer := 100\<rparr>\<rparr>"
  have h: "(2001 / 20 :: real) - last_infer (sys ?w) \<le> infer_interval (main_cfg ''k'')"
    by (simp add: main_cfg_tunables)
  show ?thesis
    using submit_throttled [OF h, of "sample_frame [1]" "[WorkerGet Encoded (2002 / 20)]"] h
    by simp
qed

text \<open>
  Claim C5 as stated fails: two network calls can be issued less than \<open>infer_interval\<close>
  apart. With the configuration of \<^verbatim>\<open>main\<close> (interval 0.1 s): a frame is submitted and
  sent at time 100; while that call is in flight the queue is empty and \<open>last_infer\<close> is
  still zero, so a second frame is accepted at 100.01; the first call returns at 100.05
  and the worker sends the second frame at once. The calls are issued at 100 and 100.05.
\<close>

theorem calls_closer_than_interval:
  "map_option calls
     (run (main_cfg ''k'')
        [Submit 100 (sample_frame [1]),
         WorkerGet Encoded 100,
         Submit (10001 / 100) (sample_frame [2]),
         WorkerReturn (Response True (Some (JObj [(''predictions'', JArr [])]))) (2001 / 20),
         WorkerGet Encoded (2001 / 20)]
        init_world)
   = Some [100, 2001 / 20]
   \<and> (2001 / 20 :: real) - 100 < infer_interval (main_cfg ''k'')"
  by (simp add: init_world_def init_def enqueue_def queue_put_def queue_maxsize_def
      main_cfg_tunables infer_finish_def infer_try_def adjust_def bindE_simps py_truediv_def
      sample_frame_def)

text \<open>
  Claim C6. In every execution from the initial state no event blocks, the queue never
  holds more than one frame, and a submission made while a frame is pending changes
  nothing: the pending frame, the object and the record of network calls are as before,
  and the execution continues as if the frame had not been submitted.
\<close>

theorem one_pending_frame:
  "\<exists>w. run cfg evs init_world = Some w \<and> length (queue (sys w)) \<le> 1
      \<and> (queue (sys w) \<noteq> [] \<longrightarrow>
           step cfg (Submit now fr) w = Some w
           \<and> run cfg (evs @ Submit now fr # later) init_world = run cfg (evs @ later) init_world)"
proof -
  have "length (queue (sys init_world)) \<le> 1" by (simp add: init_world_def init_def)
  then obtain w where w: "run cfg evs init_world = Some w" "length (queue (sys w)) \<le> 1"
    using run_queue_bound by blast
  have "run cfg (evs @ Submit now fr # later) init_world = run cfg (evs @ later) init_world"
    if "queue (sys w) \<noteq> []"
    using w(1) submit_pending_noop [OF that, of cfg now fr] by (simp add: run_append)
  then show ?thesis using w submit_pending_noop by blast
qed

theorem one_pending_frame_witness:
  "run (main_cfg ''k'') [Submit 100 (sample_frame [1])] init_world
     = Some (init_world\<lparr>sys := init\<lparr>queue := [sample_frame [1]]\<rparr>\<rparr>)
   \<and> queue (sys (init_world\<lparr>sys := init\<lparr>queue := [sample_frame [1]]\<rparr>\<rparr>)) \<noteq> []
   \<and> step (main_cfg ''k'') (Submit (10001 / 100) (sample_frame [2]))
        (init_world\<lparr>sys := init\<lparr>queue := [sample_frame [1]]\<rparr>\<rparr>)
     = Some (init_world\<lparr>sys := init\<lparr>queue := [sample_frame [1]]\<rparr>\<rparr>)
   \<and> map_option calls
        (run (main_cfg ''k'')
           ([Submit 100 (sample_frame [1])] @ Submit (10001 / 100) (sample_frame [2])
              # [WorkerGet Encoded (10002 / 100), WorkerGet Encoded (10003 / 100)]) init_world)
     = Some [10002 / 100]"
proof -
  let ?w = "init_world\<lparr>sys := init\<lparr>queue := [sample_frame [1]]\<rparr>\<rparr>"
  have r: "run (main_cfg ''k'') [Submit 100 (sample_frame [1])] init_world = Some ?w"
    by (simp add: init_world_def init_def enqueue_def queue_put_def queue_maxsize_def
        main_cfg_tunables)
  have q: "queue (sys ?w) \<noteq> []" by simp
  have c: "map_option calls
        (run (main_cfg ''k'')
           ([Submit 100 (sample_frame [1])]
              @ [WorkerGet Encoded (10002 / 100), WorkerGet Encoded (10003 / 100)]) init_world)
     = Some [10002 / 100]"
    by (simp add: init_world_def init_def enqueue_def queue_put_def queue_maxsize_def
        main_cfg_tunables)
  from one_pending_frame [of "main_cfg ''k''" "[Submit 100 (sample_frame [1])]"
      "10001 / 100" "sample_frame [2]"
      "[WorkerGet Encoded (10002 / 100), WorkerGet Encoded (10003 / 100)]"]
  have "step (main_cfg ''k'') (Submit (10001 / 100) (sample_frame [2])) ?w = Some ?w
      \<and> run (main_cfg ''k'')
           ([Submit 100 (sample_frame [1])] @ Submit (10001 / 100) (sample_frame [2])
              # [WorkerGet Encoded (10002 / 100), WorkerGet Encoded (10003 / 100)]) init_world
        = run (main_cfg ''k'')
           ([Submit 100 (sample_frame [1])]
              @ [WorkerGet Encoded (10002 / 100), WorkerGet Encoded (10003 / 100)]) init_world"
    unfolding r using q by blast
  then show ?thesis using r q c by simp
qed

section \<open>Properties of the credential loop\<close>

lemma tag_autorizada_None: "t \<notin> tag ` set db \<Longrightarrow> tag_autorizada db t = None"
proof -
  assume "t \<notin> tag ` set db"
  then have "filter (\<lambda>r. tag r = t) db = []"
    by (auto simp: filter_empty_conv)
  then show ?thesis by (simp add: tag_autorizada_def)
qed

text \<open>
  Claim C9, as amended. When the identifier that was read is in no row of the table: if it
  is not empty, the round of \<^verbatim>\<open>main\<close> logs it, writes the denial \<^verbatim>\<open>ACESSO:NEGADO\<close>
  to the serial line, sleeps and goes back to reading, and it builds no
  \<^verbatim>\<open>MaskAccessSystem\<close>, starts no detector thread and never writes \<^verbatim>\<open>ACESSO:OK\<close>;
  if it is empty, the round only sleeps: no denial, and no detector either.
\<close>

theorem unregistered_tag_denied:
  assumes "t \<notin> tag ` set db"
  shows "(t \<noteq> [] \<longrightarrow>
            main_round db (Some t) polls =
              [Print (TagDetectada t), Print TagNaoCadastrada, AppendErrorLog t,
               Print (TagRegistrada t), SerialWrite ACESSO_NEGADO, Sleep 1]
            \<and> SerialWrite ACESSO_NEGADO \<in> set (main_round db (Some t) polls)
            \<and> NewDetector \<notin> set (main_round db (Some t) polls)
            \<and> StartDetector \<notin> set (main_round db (Some t) polls)
            \<and> SerialWrite ACESSO_OK \<notin> set (main_round db (Some t) polls))
       \<and> (t = [] \<longrightarrow> main_round db (Some t) polls = [Sleep (1 / 10)])"
  using tag_autorizada_None [OF assms]
  by (simp add: main_round_def log_tag_erro_def ACESSO_OK_def ACESSO_NEGADO_def)

theorem unregistered_tag_denied_witness:
  "''04A1B2'' \<notin> tag ` set [\<lparr> row_id = 1, nome = ''Ana'', tag = ''77C0DE'' \<rparr>]
   \<and> ''04A1B2'' \<noteq> []
   \<and> main_round [\<lparr> row_id = 1, nome = ''Ana'', tag = ''77C0DE'' \<rparr>] (Some ''04A1B2'') [True]
     = [Print (TagDetectada ''04A1B2''), Print TagNaoCadastrada, AppendErrorLog ''04A1B2'',
        Print (TagRegistrada ''04A1B2''), SerialWrite ACESSO_NEGADO, Sleep 1]
   \<and> [] \<notin> tag ` set [\<lparr> row_id = 1, nome = ''Ana'', tag = ''77C0DE'' \<rparr>]
   \<and> main_round [\<lparr> row_id = 1, nome = ''Ana'', tag = ''77C0DE'' \<rparr>] (Some []) [False]
     = [Sleep (1 / 10)]"
proof -
  have h1: "''04A1B2'' \<notin> tag ` set [\<lparr> row_id = 1, nome = ''Ana'', tag = ''77C0DE'' \<rparr>]"
    by simp
  have h2: "[] \<notin> tag ` set [\<lparr> row_id = 1, nome = ''Ana'', tag = ''77C0DE'' \<rparr>]"
    by simp
  have n: "''04A1B2'' \<noteq> []" by simp
  show ?thesis
    using unregistered_tag_denied [OF h1, of "[True]"]
      unregistered_tag_denied [OF h2, of "[False]"] h1 h2 n
    by simp
qed

text \<open>
  Claim C9 as stated fails at the empty identifier. For the line \<^verbatim>\<open>TAG:\<close> the reader
  \<^verbatim>\<open>ler_tag\<close> returns the empty string, which \<^verbatim>\<open>main\<close> takes for no tag at all: with
  a table in which no row carries the empty tag, the round sleeps and writes nothing to the
  serial line, so no denial is emitted for that read.
\<close>

theorem empty_tag_not_denied:
  "[] \<notin> tag ` set [\<lparr> row_id = 1, nome = ''Ana'', tag = ''77C0DE'' \<rparr>]
   \<and> tag_autorizada [\<lparr> row_id = 1, nome = ''Ana'', tag = ''77C0DE'' \<rparr>] [] = None
   \<and> main_round [\<lparr> row_id = 1, nome = ''Ana'', tag = ''77C0DE'' \<rparr>] (Some []) [True]
     = [Sleep (1 / 10)]
   \<and> SerialWrite ACESSO_NEGADO
        \<notin> set (main_round [\<lparr> row_id = 1, nome = ''Ana'', tag = ''77C0DE'' \<rparr>] (Some []) [True])"
  by (simp add: main_round_def tag_autorizada_def)

end
